theory Spec2Isabelle
  imports Complex_Main "HOL-Library.List_Lexorder" "HOL-Library.Char_ord"
begin

section \<open>Python exceptions\<close>

text \<open>
  Every exception the modelled code can raise is a value. \<open>LibraryError\<close> stands for any
  exception raised inside scikit-learn (a degenerate split, a fit on one class).
\<close>

datatype error =
    FileNotFoundError
  | IsADirectoryError
  | PermissionError
  | ParserError
  | IndexError
  | ValueError
  | InvalidArgumentError
  | LibraryError

section \<open>Result tables: \<open>save_test_results\<close> (evaluate\_nc.py, lines 91-98)\<close>

text \<open>
  A float cell of a table is a real number or NaN; \<open>None\<close> is NaN. A pandas frame is its
  row labels, its column labels and the matrix of cells, one row per label.

  What a path holds: \<open>Csv df\<close> is the CSV file of the table \<open>df\<close>; \<open>Unparsable\<close> is a
  file that \<open>read_csv\<close> rejects (an empty lock file, for example); \<open>Directory\<close> is a
  directory; \<open>NoPermission\<close> is a file the process may not open; \<open>NoDirectory\<close> is
  a path with no file whose directory does not exist either, so that nothing can be
  created there. A path that maps to \<open>None\<close> has no file, in an existing directory.
\<close>

type_synonym cell = "real option"

record frame =
  df_index :: "int list"
  df_columns :: "string list"
  df_values :: "cell list list"

datatype content = Csv frame | Unparsable | Directory | NoPermission | NoDirectory

type_synonym filesystem = "string \<Rightarrow> content option"

text \<open>The position of the first occurrence of a label (\<open>Index.get_loc\<close>).\<close>

fun position :: "'a \<Rightarrow> 'a list \<Rightarrow> nat option" where
  "position x [] = None"
| "position x (y # ys) = (if x = y then Some 0 else map_option Suc (position x ys))"

definition nth_opt :: "'a list \<Rightarrow> nat \<Rightarrow> 'a option" where
  "nth_opt xs i = (if i < length xs then Some (xs ! i) else None)"

text \<open>
  \<open>df_at df r c\<close> is \<open>df.at[r, c]\<close>: \<open>None\<close> when the row or the column label is absent
  (a KeyError), \<open>Some None\<close> for a NaN cell, \<open>Some (Some v)\<close> for the number \<open>v\<close>.
\<close>

definition df_at :: "frame \<Rightarrow> int \<Rightarrow> string \<Rightarrow> cell option" where
  "df_at df r c =
     (case position r (df_index df) of
        None \<Rightarrow> None
      | Some i \<Rightarrow>
          (case position c (df_columns df) of
             None \<Rightarrow> None
           | Some j \<Rightarrow>
               (case nth_opt (df_values df) i of
                  None \<Rightarrow> None
                | Some row \<Rightarrow> nth_opt row j)))"

text \<open>
  A table is well formed when its labels are unique and its matrix is rectangular. Column
  labels read from a CSV header are always unique; the row labels of a file that only
  \<open>save_test_results\<close> has written are unique too (theorem \<open>saves_keep_frame_ok\<close>).
\<close>

definition frame_ok :: "frame \<Rightarrow> bool" where
  "frame_ok df \<longleftrightarrow>
     distinct (df_index df) \<and> distinct (df_columns df) \<and>
     length (df_values df) = length (df_index df) \<and>
     list_all (\<lambda>row. length row = length (df_columns df)) (df_values df)"

text \<open>
  \<open>pd.DataFrame(index=idx, data=data)\<close> for a dict of scalars: one column per key, in the
  dict's order, every scalar repeated on each row. The dict is an association list; a
  Python dict has no repeated key.
\<close>

definition DataFrame :: "int list \<Rightarrow> (string \<times> cell) list \<Rightarrow> frame" where
  "DataFrame idx data =
     \<lparr>df_index = idx, df_columns = map fst data, df_values = map (\<lambda>_. map snd data) idx\<rparr>"

text \<open>
  \<open>Index.union\<close> of two label sequences without repeats: an empty or equal operand gives
  the other back unchanged, otherwise the result is the sorted union. (With repeated
  labels pandas keeps the repeats; such tables are outside \<open>frame_ok\<close> and no property
  below is about them.)
\<close>

definition union_labels :: "('a::linorder) list \<Rightarrow> 'a list \<Rightarrow> 'a list" where
  "union_labels xs ys =
     (if ys = [] \<or> xs = ys then xs
      else if xs = [] then ys
      else sort (remdups (xs @ ys)))"

text \<open>
  \<open>self.combine_first(other)\<close>: the labels are the unions; a cell is \<open>self\<close>'s value where
  \<open>self\<close> has the cell and it is not NaN, else \<open>other\<close>'s value, else NaN. The order of
  the labels is that of pandas before version 3: sorted, except that for an \<open>other\<close>
  without rows the columns of \<open>self\<close> come first, followed by the remaining columns of
  \<open>other\<close>, sorted. (pandas 3 puts the columns of \<open>self\<close> first for every \<open>other\<close>.)
  Only the closed examples below depend on the order.
\<close>

definition combiner :: "cell option \<Rightarrow> cell option \<Rightarrow> cell" where
  "combiner x y =
     (case x of
        Some (Some v) \<Rightarrow> Some v
      | _ \<Rightarrow> (case y of Some u \<Rightarrow> u | None \<Rightarrow> None))"

definition union_columns :: "string list \<Rightarrow> string list \<Rightarrow> bool \<Rightarrow> string list" where
  "union_columns xs ys other_has_no_row =
     (if other_has_no_row then xs @ sort (remdups (filter (\<lambda>c. c \<notin> set xs) ys))
      else union_labels xs ys)"

definition combine_first :: "frame \<Rightarrow> frame \<Rightarrow> frame" where
  "combine_first self other =
     (let new_index = union_labels (df_index self) (df_index other);
          new_columns = union_columns (df_columns self) (df_columns other) (df_index other = [])
      in \<lparr>df_index = new_index, df_columns = new_columns,
          df_values =
            map (\<lambda>r. map (\<lambda>c. combiner (df_at self r c) (df_at other r c)) new_columns)
              new_index\<rparr>)"

definition os_path_exists :: "filesystem \<Rightarrow> string \<Rightarrow> bool" where
  "os_path_exists fs path \<longleftrightarrow> fs path \<noteq> None \<and> fs path \<noteq> Some NoDirectory"

definition read_csv :: "filesystem \<Rightarrow> string \<Rightarrow> error + frame" where
  "read_csv fs path =
     (case fs path of
        None \<Rightarrow> Inl FileNotFoundError
      | Some NoDirectory \<Rightarrow> Inl FileNotFoundError
      | Some Directory \<Rightarrow> Inl IsADirectoryError
      | Some NoPermission \<Rightarrow> Inl PermissionError
      | Some Unparsable \<Rightarrow> Inl ParserError
      | Some (Csv df) \<Rightarrow> Inr df)"

text \<open>
  \<open>df.to_csv(path)\<close> opens the path for writing, which raises where no file can be
  created or overwritten, and then replaces the file by the CSV text of \<open>df\<close>.

  \<open>Csv df\<close> stands both for the file written from \<open>df\<close> and for the file that
  \<open>read_csv\<close> loads as \<open>df\<close>. The two agree on the tables of \<open>csv_exact\<close>: row labels
  in the signed 64-bit range (pandas before version 3 reads a label that does not fit 64
  bits back as text, and with it every label of the file) and no empty column name (an empty
  name is read back as \<open>Unnamed: 1\<close>). Floats are taken to survive the round trip; a
  float of 17 significant digits may come back changed in its last digit. A property
  that reads what an earlier call wrote is stated for \<open>csv_exact\<close> tables only.
\<close>

definition to_csv :: "frame \<Rightarrow> string \<Rightarrow> filesystem \<Rightarrow> error + filesystem" where
  "to_csv df path fs =
     (case fs path of
        Some NoDirectory \<Rightarrow> Inl FileNotFoundError
      | Some Directory \<Rightarrow> Inl IsADirectoryError
      | Some NoPermission \<Rightarrow> Inl PermissionError
      | _ \<Rightarrow> Inr (fs(path \<mapsto> Csv df)))"



text \<open>
  \<open>save_test_results\<close> returns nothing; its result is the exception raised, if any, and the
  file system it leaves. The only write is the last statement, so a raise leaves the
  files as they were.
\<close>

definition save_test_results ::
  "string \<Rightarrow> int \<Rightarrow> (string \<times> cell) list \<Rightarrow> filesystem \<Rightarrow> error option \<times> filesystem" where
  "save_test_results filename seed data fs =
     (let d = DataFrame [seed] data in
      if os_path_exists fs filename then
        (case read_csv fs filename of
           Inl e \<Rightarrow> (Some e, fs)
         | Inr test_df \<Rightarrow>
             (case to_csv (combine_first d test_df) filename fs of
                Inl e \<Rightarrow> (Some e, fs)
              | Inr fs' \<Rightarrow> (None, fs')))
      else
        (case to_csv d filename fs of
           Inl e \<Rightarrow> (Some e, fs)
         | Inr fs' \<Rightarrow> (None, fs')))"

text \<open>A sequence of calls on one file name; it stops at the first exception.\<close>

fun saves :: "string \<Rightarrow> (int \<times> (string \<times> cell) list) list \<Rightarrow> filesystem \<Rightarrow> error option \<times> filesystem" where
  "saves filename [] fs = (None, fs)"
| "saves filename ((seed, data) # calls) fs =
     (case save_test_results filename seed data fs of
        (Some e, fs') \<Rightarrow> (Some e, fs')
      | (None, fs') \<Rightarrow> saves filename calls fs')"

section \<open>The lock wrapper (evaluate\_nc.py, lines 63-89 and 100-101)\<close>

text \<open>
  The system calls of one call of the wrapper on the lock file are recorded as a trace:
  \<open>Open path ok\<close> is \<open>open(path, 'r+')\<close> and whether it succeeded; \<open>Lockf path flags ok\<close>
  is \<open>fcntl.lockf(fp, flags)\<close> on the handle of \<open>path\<close> and whether it succeeded;
  \<open>Close path\<close> is \<open>fp.close()\<close>; \<open>Invoke\<close> is the call of the wrapped function. A lock is
  released explicitly by \<open>lockf\<close> with \<open>LOCK_UN\<close> or by closing the handle. The handle
  \<open>fp\<close> is local to the wrapper and is not passed to the wrapped function.
\<close>

datatype lock_flag = LOCK_SH | LOCK_EX | LOCK_NB | LOCK_UN

datatype event =
    Open string bool
  | Lockf string "lock_flag list" bool
  | Close string
  | Invoke

text \<open>\<open>open(path, 'r+')\<close>: the exception it raises, if any. Mode \<open>r+\<close> never creates a file.\<close>

definition open_rplus :: "filesystem \<Rightarrow> string \<Rightarrow> error option" where
  "open_rplus fs path =
     (case fs path of
        None \<Rightarrow> Some FileNotFoundError
      | Some NoDirectory \<Rightarrow> Some FileNotFoundError
      | Some Directory \<Rightarrow> Some IsADirectoryError
      | Some NoPermission \<Rightarrow> Some PermissionError
      | _ \<Rightarrow> None)"

text \<open>
  The outcome of the \<open>k\<close>-th call \<open>fcntl.lockf(fp, LOCK_EX | LOCK_NB)\<close> is decided by the
  other processes: \<open>lockf k = None\<close> when the call raises \<open>IOError\<close> (another process holds
  the lock); \<open>lockf k = Some others\<close> when it succeeds, \<open>others\<close> being what the other
  processes have done to the files since the call began (they write the result file
  while they hold the lock). The loop \<open>while not done\<close> has no bound, so it is a partial
  function: \<open>None\<close> is a call that spins for ever.
\<close>

partial_function (option) acquire ::
  "string \<Rightarrow> (nat \<Rightarrow> (filesystem \<Rightarrow> filesystem) option) \<Rightarrow> nat \<Rightarrow> event list
     \<Rightarrow> (event list \<times> (filesystem \<Rightarrow> filesystem)) option" where
  "acquire lock_filename lockf k trace =
     (case lockf k of
        Some others \<Rightarrow> Some (trace @ [Lockf lock_filename [LOCK_EX, LOCK_NB] True], others)
      | None \<Rightarrow>
          acquire lock_filename lockf (Suc k)
            (trace @ [Lockf lock_filename [LOCK_EX, LOCK_NB] False]))"

text \<open>
  \<open>lock_method(lock_filename)(func)\<close>: the \<open>open\<close>, which may raise; then the loop; then
  \<open>func\<close>, on the files as they are once the lock is held. The result is the trace, the
  exception if any, and the file system.
\<close>

definition lock_and_run_method ::
  "string \<Rightarrow> (filesystem \<Rightarrow> error option \<times> filesystem)
     \<Rightarrow> (nat \<Rightarrow> (filesystem \<Rightarrow> filesystem) option) \<Rightarrow> filesystem
     \<Rightarrow> (event list \<times> error option \<times> filesystem) option" where
  "lock_and_run_method lock_filename func lockf fs =
     (case open_rplus fs lock_filename of
        Some e \<Rightarrow> Some ([Open lock_filename False], Some e, fs)
      | None \<Rightarrow>
          (case acquire lock_filename lockf 0 [Open lock_filename True] of
             None \<Rightarrow> None
           | Some (trace, others) \<Rightarrow> Some (trace @ [Invoke], func (others fs))))"

definition threadsafe_fn ::
  "string \<Rightarrow> (filesystem \<Rightarrow> error option \<times> filesystem)
     \<Rightarrow> (nat \<Rightarrow> (filesystem \<Rightarrow> filesystem) option) \<Rightarrow> filesystem
     \<Rightarrow> (event list \<times> error option \<times> filesystem) option" where
  "threadsafe_fn lock_filename fn lockf fs = lock_and_run_method lock_filename fn lockf fs"

definition threadsafe_save_test_results ::
  "string \<Rightarrow> string \<Rightarrow> int \<Rightarrow> (string \<times> cell) list
     \<Rightarrow> (nat \<Rightarrow> (filesystem \<Rightarrow> filesystem) option) \<Rightarrow> filesystem
     \<Rightarrow> (event list \<times> error option \<times> filesystem) option" where
  "threadsafe_save_test_results lock_filename filename seed data lockf fs =
     threadsafe_fn lock_filename (save_test_results filename seed data) lockf fs"

section \<open>Node classification: \<open>evaluate_node_classification\<close> (evaluate\_nc.py, lines 16-49)\<close>

text \<open>
  The embedding is a matrix, one row per node. The labels are a vector of class indices
  (one dimension) or a binary indicator matrix (two dimensions); \<open>ndim\<close> is
  \<open>len(labels.shape)\<close>.
\<close>

type_synonym matrix = "real list list"

datatype labels = Labels1 "int list" | Labels2 "int list list"

fun ndim :: "labels \<Rightarrow> nat" where
  "ndim (Labels1 ys) = 1"
| "ndim (Labels2 ys) = 2"

datatype splitter = StratifiedShuffleSplit | ShuffleSplit

datatype average = Micro | Macro

text \<open>
  \<open>a[idx]\<close> with an array of row numbers: the selected rows, in the order of \<open>idx\<close>; a
  row number out of range raises \<open>IndexError\<close>.
\<close>

definition take_rows :: "'a list \<Rightarrow> nat list \<Rightarrow> error + 'a list" where
  "take_rows xs idx =
     (if list_all (\<lambda>i. i < length xs) idx then Inr (map (\<lambda>i. xs ! i) idx)
      else Inl IndexError)"

fun take_labels :: "labels \<Rightarrow> nat list \<Rightarrow> error + labels" where
  "take_labels (Labels1 ys) idx =
     (case take_rows ys idx of Inl e \<Rightarrow> Inl e | Inr zs \<Rightarrow> Inr (Labels1 zs))"
| "take_labels (Labels2 ys) idx =
     (case take_rows ys idx of Inl e \<Rightarrow> Inl e | Inr zs \<Rightarrow> Inr (Labels2 zs))"

text \<open>
  scikit-learn is a parameter of the model: a record of the operations the code calls.
  \<open>'m\<close> is the state of a classifier object and \<open>'g\<close> the state of numpy's global random
  generator. \<open>sk_split cls test_size random_state X y g\<close> is
  \<open>next(cls(n_splits=1, test_size=test_size, random_state=random_state).split(X, y))\<close>:
  the train and the test row numbers, and the global generator afterwards (only a split
  with \<open>random_state=None\<close> draws from it). \<open>sk_fit\<close> returns the fitted object.
  \<open>sk_fit\<close>, \<open>sk_predict\<close> and \<open>sk_f1_score\<close> draw no random numbers: the default
  \<open>LogisticRegressionCV()\<close> uses the \<open>lbfgs\<close> solver on unshuffled folds.
\<close>

record ('m, 'g) sklearn =
  sk_LogisticRegressionCV :: "'m"
  sk_OneVsRestClassifier :: "'m \<Rightarrow> 'm"
  sk_split :: "splitter \<Rightarrow> real \<Rightarrow> int option \<Rightarrow> matrix \<Rightarrow> labels \<Rightarrow> 'g
                 \<Rightarrow> (error + nat list \<times> nat list) \<times> 'g"
  sk_fit :: "'m \<Rightarrow> matrix \<Rightarrow> labels \<Rightarrow> error + 'm"
  sk_predict :: "'m \<Rightarrow> matrix \<Rightarrow> error + labels"
  sk_f1_score :: "labels \<Rightarrow> labels \<Rightarrow> average \<Rightarrow> error + real"

text \<open>The library calls of a run, in order, with their arguments.\<close>

datatype 'm call =
    CallSplit splitter real "int option"
  | CallFit 'm matrix labels
  | CallPredict 'm matrix
  | CallF1 labels labels average

text \<open>
  The state of the loops: the two score matrices (\<open>n_repeats\<close> rows, one column per
  percentage), the classifier object (the same object is fitted again in every
  iteration), numpy's global generator, and the calls made so far.
\<close>

record ('m, 'g) eval_state =
  f1_micros :: "real list list"
  f1_macros :: "real list list"
  model :: "'m"
  np_random :: "'g"
  lib_calls :: "'m call list"

text \<open>\<open>a[r, c] = v\<close> on a matrix.\<close>

definition set_entry :: "real list list \<Rightarrow> nat \<Rightarrow> nat \<Rightarrow> real \<Rightarrow> real list list" where
  "set_entry a r c v = a[r := (a ! r)[c := v]]"

text \<open>The body of the inner loop, lines 39-46.\<close>

definition eval_step ::
  "('m, 'g) sklearn \<Rightarrow> splitter \<Rightarrow> matrix \<Rightarrow> labels \<Rightarrow> nat \<Rightarrow> nat \<Rightarrow> real
     \<Rightarrow> ('m, 'g) eval_state \<Rightarrow> error + ('m, 'g) eval_state" where
  "eval_step lib split klein_embedding labels seed i label_percentage st =
     (case sk_split lib split (1 - label_percentage) (Some (int seed)) klein_embedding labels
             (np_random st) of
        (Inl e, g) \<Rightarrow> Inl e
      | (Inr (split_train, split_test), g) \<Rightarrow>
     (case take_rows klein_embedding split_train of Inl e \<Rightarrow> Inl e | Inr x_train \<Rightarrow>
     (case take_labels labels split_train of Inl e \<Rightarrow> Inl e | Inr y_train \<Rightarrow>
     (case sk_fit lib (model st) x_train y_train of Inl e \<Rightarrow> Inl e | Inr fitted \<Rightarrow>
     (case take_rows klein_embedding split_test of Inl e \<Rightarrow> Inl e | Inr x_test \<Rightarrow>
     (case sk_predict lib fitted x_test of Inl e \<Rightarrow> Inl e | Inr predictions \<Rightarrow>
     (case take_labels labels split_test of Inl e \<Rightarrow> Inl e | Inr y_test \<Rightarrow>
     (case sk_f1_score lib y_test predictions Micro of Inl e \<Rightarrow> Inl e | Inr f1_micro \<Rightarrow>
     (case sk_f1_score lib y_test predictions Macro of Inl e \<Rightarrow> Inl e | Inr f1_macro \<Rightarrow>
        Inr \<lparr>f1_micros = set_entry (f1_micros st) seed i f1_micro,
             f1_macros = set_entry (f1_macros st) seed i f1_macro,
             model = fitted,
             np_random = g,
             lib_calls = lib_calls st @
               [CallSplit split (1 - label_percentage) (Some (int seed)),
                CallFit (model st) x_train y_train,
                CallPredict fitted x_test,
                CallF1 y_test predictions Micro,
                CallF1 y_test predictions Macro]\<rparr>)))))))))"

text \<open>\<open>for i, label_percentage in enumerate(label_percentages)\<close>, from position \<open>i\<close> on.\<close>

fun percentages_loop ::
  "('m, 'g) sklearn \<Rightarrow> splitter \<Rightarrow> matrix \<Rightarrow> labels \<Rightarrow> nat \<Rightarrow> nat \<Rightarrow> real list
     \<Rightarrow> ('m, 'g) eval_state \<Rightarrow> error + ('m, 'g) eval_state" where
  "percentages_loop lib split X y seed i [] st = Inr st"
| "percentages_loop lib split X y seed i (p # ps) st =
     (case eval_step lib split X y seed i p st of
        Inl e \<Rightarrow> Inl e
      | Inr st' \<Rightarrow> percentages_loop lib split X y seed (Suc i) ps st')"

text \<open>\<open>for seed in range(n_repeats)\<close>, over the repeat indices still to run.\<close>

fun repeats_loop ::
  "('m, 'g) sklearn \<Rightarrow> splitter \<Rightarrow> matrix \<Rightarrow> labels \<Rightarrow> real list \<Rightarrow> nat list
     \<Rightarrow> ('m, 'g) eval_state \<Rightarrow> error + ('m, 'g) eval_state" where
  "repeats_loop lib split X y label_percentages [] st = Inr st"
| "repeats_loop lib split X y label_percentages (seed # seeds) st =
     (case percentages_loop lib split X y seed 0 label_percentages st of
        Inl e \<Rightarrow> Inl e
      | Inr st' \<Rightarrow> repeats_loop lib split X y label_percentages seeds st')"

text \<open>
  Lines 23-47 for a chosen classifier object and splitter class: the zero matrices, then
  the loops. \<open>np.zeros\<close> raises \<open>ValueError\<close> on a negative dimension.
\<close>

definition evaluate_loops ::
  "('m, 'g) sklearn \<Rightarrow> splitter \<Rightarrow> 'm \<Rightarrow> matrix \<Rightarrow> labels \<Rightarrow> real list \<Rightarrow> int \<Rightarrow> 'g
     \<Rightarrow> error + ('m, 'g) eval_state" where
  "evaluate_loops lib split model0 klein_embedding labels label_percentages n_repeats g =
     (if n_repeats < 0 then Inl ValueError
      else repeats_loop lib split klein_embedding labels label_percentages [0..<nat n_repeats]
             \<lparr>f1_micros = replicate (nat n_repeats) (replicate (length label_percentages) 0),
              f1_macros = replicate (nat n_repeats) (replicate (length label_percentages) 0),
              model = model0, np_random = g, lib_calls = []\<rparr>)"

text \<open>Lines 26-31: the classifier and the splitter class, by the labels' dimensions.\<close>

definition choose_model :: "('m, 'g) sklearn \<Rightarrow> labels \<Rightarrow> 'm" where
  "choose_model lib labels =
     (if ndim labels > 1 then sk_OneVsRestClassifier lib (sk_LogisticRegressionCV lib)
      else sk_LogisticRegressionCV lib)"

definition choose_split :: "labels \<Rightarrow> splitter" where
  "choose_split labels = (if ndim labels > 1 then ShuffleSplit else StratifiedShuffleSplit)"

definition run_repeats ::
  "('m, 'g) sklearn \<Rightarrow> matrix \<Rightarrow> labels \<Rightarrow> real list \<Rightarrow> int \<Rightarrow> 'g
     \<Rightarrow> error + ('m, 'g) eval_state" where
  "run_repeats lib klein_embedding labels label_percentages n_repeats g =
     evaluate_loops lib (choose_split labels) (choose_model lib labels)
       klein_embedding labels label_percentages n_repeats g"

text \<open>
  \<open>a.mean(axis=0)\<close> of a matrix with \<open>k\<close> columns: one mean per column; with no row every
  mean is NaN (0/0).
\<close>

definition mean_axis0 :: "nat \<Rightarrow> real list list \<Rightarrow> cell list" where
  "mean_axis0 k a =
     map (\<lambda>j. if a = [] then None
              else Some (sum_list (map (\<lambda>row. row ! j) a) / real (length a))) [0..<k]"

definition evaluate_node_classification ::
  "('m, 'g) sklearn \<Rightarrow> matrix \<Rightarrow> labels \<Rightarrow> real list \<Rightarrow> int \<Rightarrow> 'g
     \<Rightarrow> error + real list \<times> cell list \<times> cell list" where
  "evaluate_node_classification lib klein_embedding labels label_percentages n_repeats g =
     (case run_repeats lib klein_embedding labels label_percentages n_repeats g of
        Inl e \<Rightarrow> Inl e
      | Inr st \<Rightarrow>
          Inr (label_percentages,
               mean_axis0 (length label_percentages) (f1_micros st),
               mean_axis0 (length label_percentages) (f1_macros st)))"

text \<open>
  What one iteration computes, as a relation between its inputs and the two scores: some
  split with \<open>test_size = 1 - p\<close> and \<open>random_state = seed\<close> gave the train and test rows,
  some classifier object was fitted on the train rows, and the scores are the micro and
  the macro F1 of its predictions on the test rows against the test labels.
\<close>

definition scored ::
  "('m, 'g) sklearn \<Rightarrow> splitter \<Rightarrow> matrix \<Rightarrow> labels \<Rightarrow> nat \<Rightarrow> real \<Rightarrow> real \<Rightarrow> real \<Rightarrow> bool" where
  "scored lib split X y seed p f1_micro f1_macro \<longleftrightarrow>
     (\<exists>g g' m train test x_train y_train fitted x_test predictions y_test.
        sk_split lib split (1 - p) (Some (int seed)) X y g = (Inr (train, test), g') \<and>
        take_rows X train = Inr x_train \<and> take_labels y train = Inr y_train \<and>
        sk_fit lib m x_train y_train = Inr fitted \<and>
        take_rows X test = Inr x_test \<and> sk_predict lib fitted x_test = Inr predictions \<and>
        take_labels y test = Inr y_test \<and>
        sk_f1_score lib y_test predictions Micro = Inr f1_micro \<and>
        sk_f1_score lib y_test predictions Macro = Inr f1_macro)"

text \<open>The splits, and the objects fitted, among the calls of a run.\<close>

fun split_calls :: "'m call list \<Rightarrow> (splitter \<times> real \<times> int option) list" where
  "split_calls [] = []"
| "split_calls (CallSplit cls test_size random_state # cs) =
     (cls, test_size, random_state) # split_calls cs"
| "split_calls (c # cs) = split_calls cs"

fun fit_calls :: "'m call list \<Rightarrow> 'm list" where
  "fit_calls [] = []"
| "fit_calls (CallFit m x y # cs) = m # fit_calls cs"
| "fit_calls (c # cs) = fit_calls cs"

text \<open>A matrix with \<open>n\<close> rows of \<open>k\<close> entries each.\<close>

definition dims :: "nat \<Rightarrow> nat \<Rightarrow> real list list \<Rightarrow> bool" where
  "dims n k a \<longleftrightarrow> length a = n \<and> list_all (\<lambda>row. length row = k) a"

text \<open>
  A small library for the closed examples. A classifier object is whether it is wrapped
  in one-vs-rest and the label it has learnt: \<open>fit\<close> learns the first training label and
  \<open>predict\<close> predicts it for every row. The split takes the first
  \<open>floor((1 - test_size) * n)\<close> rows for training and the others for testing, after
  rotating the rows by the seed, or by the global generator's state (which it advances)
  when there is no seed. The score is the share of rows predicted right.
\<close>

definition example_split ::
  "splitter \<Rightarrow> real \<Rightarrow> int option \<Rightarrow> matrix \<Rightarrow> labels \<Rightarrow> nat
     \<Rightarrow> (error + nat list \<times> nat list) \<times> nat" where
  "example_split cls test_size random_state X y g =
     (let n = length X;
          k = nat \<lfloor>(1 - test_size) * real n\<rfloor>;
          shift = (case random_state of None \<Rightarrow> g | Some s \<Rightarrow> nat s);
          rows = map (\<lambda>i. (i + shift) mod n) [0..<n]
      in (if k = 0 \<or> n \<le> k then Inl LibraryError else Inr (take k rows, drop k rows),
          (case random_state of None \<Rightarrow> Suc g | Some s \<Rightarrow> g)))"

fun example_fit :: "bool \<times> labels option \<Rightarrow> matrix \<Rightarrow> labels \<Rightarrow> error + bool \<times> labels option" where
  "example_fit (ovr, l) X (Labels1 (c # cs)) = Inr (ovr, Some (Labels1 [c]))"
| "example_fit (ovr, l) X (Labels2 (r # rs)) = Inr (ovr, Some (Labels2 [r]))"
| "example_fit (ovr, l) X y = Inl LibraryError"

fun example_predict :: "bool \<times> labels option \<Rightarrow> matrix \<Rightarrow> error + labels" where
  "example_predict (ovr, Some (Labels1 [c])) X = Inr (Labels1 (replicate (length X) c))"
| "example_predict (ovr, Some (Labels2 [r])) X = Inr (Labels2 (replicate (length X) r))"
| "example_predict m X = Inl LibraryError"

fun example_f1_score :: "labels \<Rightarrow> labels \<Rightarrow> average \<Rightarrow> error + real" where
  "example_f1_score (Labels1 ys) (Labels1 zs) average =
     Inr (real (length (filter (\<lambda>(a, b). a = b) (zip ys zs))) / real (length ys))"
| "example_f1_score (Labels2 ys) (Labels2 zs) average =
     Inr (real (length (filter (\<lambda>(a, b). a = b) (zip ys zs))) / real (length ys))"
| "example_f1_score y_true y_pred average = Inl ValueError"

definition example_sklearn :: "(bool \<times> labels option, nat) sklearn" where
  "example_sklearn =
     \<lparr>sk_LogisticRegressionCV = (False, None),
      sk_OneVsRestClassifier = (\<lambda>(ovr, l). (True, l)),
      sk_split = example_split,
      sk_fit = example_fit,
      sk_predict = example_predict,
      sk_f1_score = example_f1_score\<rparr>"

text \<open>
  Two states, or two outcomes, that differ at most in the state of the global random
  generator.
\<close>

definition same_but_rng :: "('m, 'g) eval_state \<Rightarrow> ('m, 'g) eval_state \<Rightarrow> bool" where
  "same_but_rng s t \<longleftrightarrow>
     f1_micros s = f1_micros t \<and> f1_macros s = f1_macros t \<and> model s = model t \<and>
     lib_calls s = lib_calls t"

definition same_outcome ::
  "error + ('m, 'g) eval_state \<Rightarrow> error + ('m, 'g) eval_state \<Rightarrow> bool" where
  "same_outcome a b =
     (case a of
        Inl e \<Rightarrow> b = Inl e
      | Inr s \<Rightarrow> (case b of Inl e \<Rightarrow> False | Inr t \<Rightarrow> same_but_rng s t))"

text \<open>
  Two properties of scikit-learn that the theorems below assume of the library: a split
  with an integer \<open>random_state\<close> draws from a generator of its own, seeded with that
  integer, so that its result does not depend on the global generator; and an F1 score
  lies between 0 and 1.
\<close>

definition seeded_split_ignores_global :: "('m, 'g) sklearn \<Rightarrow> bool" where
  "seeded_split_ignores_global lib \<longleftrightarrow>
     (\<forall>cls test_size s X y g1 g2.
        fst (sk_split lib cls test_size (Some s) X y g1) =
        fst (sk_split lib cls test_size (Some s) X y g2))"

definition f1_scores_in_unit_interval :: "('m, 'g) sklearn \<Rightarrow> bool" where
  "f1_scores_in_unit_interval lib \<longleftrightarrow>
     (\<forall>y_true y_pred average v.
        sk_f1_score lib y_true y_pred average = Inr v \<longrightarrow> 0 \<le> v \<and> v \<le> 1)"

section \<open>The hyperbolic softmax loss (heat/losses.py, lines 7-9 and 13-28)\<close>























section \<open>Properties of the result tables\<close>

lemma position_None: "position x xs = None \<longleftrightarrow> x \<notin> set xs"
  by (induction xs) auto


lemma position_Some: "position x xs = Some i \<Longrightarrow> i < length xs \<and> xs ! i = x"
  by (induction xs arbitrary: i) (auto split: if_splits)


lemma df_at_table:
  "df_at \<lparr>df_index = idx, df_columns = cols, df_values = map (\<lambda>r. map (f r) cols) idx\<rparr> r c =
     (if r \<in> set idx \<and> c \<in> set cols then Some (f r c) else None)"
proof (cases "position r idx")
  case None
  then have "r \<notin> set idx" by (simp add: position_None)
  with None show ?thesis by (simp add: df_at_def)
next
  case (Some i)
  note Si = this
  then have i: "i < length idx" "idx ! i = r" using position_Some by fastforce+
  then have rin: "r \<in> set idx" by auto
  show ?thesis
  proof (cases "position c cols")
    case None
    then have "c \<notin> set cols" by (simp add: position_None)
    with None Si show ?thesis by (simp add: df_at_def)
  next
    case (Some j)
    then have j: "j < length cols" "cols ! j = c" using position_Some by fastforce+
    then have "c \<in> set cols" by auto
    then show ?thesis using Si Some i j rin by (simp add: df_at_def nth_opt_def)
  qed
qed

lemma position_map_of: "position c (map fst data) = Some j \<Longrightarrow> map_of data c = Some (map snd data ! j)"
  by (induction data arbitrary: j) (auto split: if_splits)

lemma df_at_DataFrame:
  "df_at (DataFrame [seed] data) r c = (if r = seed then map_of data c else None)"
proof (cases "position c (map fst data)")
  case None
  then have "map_of data c = None" by (simp add: position_None map_of_eq_None_iff)
  with None show ?thesis by (simp add: df_at_def DataFrame_def)
next
  case (Some j)
  then show ?thesis using position_map_of[OF Some] position_Some[OF Some]
    by (simp add: df_at_def DataFrame_def nth_opt_def)
qed

lemma set_union_labels: "set (union_labels xs ys) = set xs \<union> set ys"
  by (auto simp: union_labels_def)

lemma distinct_union_labels: "distinct xs \<Longrightarrow> distinct ys \<Longrightarrow> distinct (union_labels xs ys)"
  by (auto simp: union_labels_def)

lemma set_union_columns: "set (union_columns xs ys b) = set xs \<union> set ys"
  by (auto simp: union_columns_def set_union_labels)

lemma distinct_union_columns: "distinct xs \<Longrightarrow> distinct ys \<Longrightarrow> distinct (union_columns xs ys b)"
  by (auto simp: union_columns_def distinct_union_labels)

lemma df_at_combine_first:
  "df_at (combine_first d t) r c =
     (if r \<in> set (df_index d) \<union> set (df_index t) \<and> c \<in> set (df_columns d) \<union> set (df_columns t)
      then Some (combiner (df_at d r c) (df_at t r c)) else None)"
  unfolding combine_first_def Let_def
  by (simp only: df_at_table set_union_labels set_union_columns)

lemma frame_ok_combine_first:
  "distinct (df_index d) \<Longrightarrow> distinct (df_columns d) \<Longrightarrow> frame_ok t \<Longrightarrow> frame_ok (combine_first d t)"
  by (simp add: frame_ok_def combine_first_def Let_def distinct_union_labels
      distinct_union_columns list_all_iff)



lemma df_index_DataFrame: "df_index (DataFrame idx data) = idx"
  by (simp add: DataFrame_def)

lemma df_columns_DataFrame: "df_columns (DataFrame idx data) = map fst data"
  by (simp add: DataFrame_def)


lemma df_at_absent_row:
  assumes "r \<notin> set (df_index t)"
  shows "df_at t r c = None"
proof -
  have "position r (df_index t) = None" using assms by (simp add: position_None)
  then show ?thesis by (simp add: df_at_def)
qed


lemma save_existing:
  "fs f = Some (Csv t) \<Longrightarrow>
   save_test_results f seed data fs = (None, fs(f \<mapsto> Csv (combine_first (DataFrame [seed] data) t)))"
  by (simp add: save_test_results_def os_path_exists_def read_csv_def to_csv_def)




lemma frame_ok_save_frame:
  "distinct (map fst data) \<Longrightarrow> frame_ok t \<Longrightarrow> frame_ok (combine_first (DataFrame [seed] data) t)"
  by (rule frame_ok_combine_first) (simp_all add: DataFrame_def)




lemmas save_eval =
  save_test_results_def os_path_exists_def read_csv_def to_csv_def DataFrame_def
  combine_first_def union_labels_def union_columns_def df_at_def nth_opt_def combiner_def
  Let_def


lemma merge_example:
  "snd (saves ''f'' [(1, [(''a'', Some 1)]), (2, [(''b'', Some 2)])] Map.empty) ''f'' =
     Some (Csv \<lparr>df_index = [1, 2], df_columns = [''a'', ''b''],
                 df_values = [[Some 1, None], [None, Some 2]]\<rparr>)"
  by (simp add: save_eval)





lemma merge_cells:
  fixes data :: "(string \<times> cell) list"
  assumes ok: "frame_ok t" and fresh: "seed \<notin> set (df_index t)"
  defines "t' \<equiv> combine_first (DataFrame [seed] data) t"
  shows "set (df_index t') = insert seed (set (df_index t))"
    and "set (df_columns t') = set (map fst data) \<union> set (df_columns t)"
    and "r \<in> set (df_index t') \<Longrightarrow> c \<in> set (df_columns t') \<Longrightarrow>
           df_at t' r c = Some (combiner (df_at (DataFrame [seed] data) r c) (df_at t r c))"
    and "c \<in> set (df_columns t') \<Longrightarrow>
           df_at t' seed c = Some (case map_of data c of Some v \<Rightarrow> v | None \<Rightarrow> None)"
    and "r \<in> set (df_index t) \<Longrightarrow> c \<in> set (df_columns t') \<Longrightarrow>
           df_at t' r c = Some (case df_at t r c of Some u \<Rightarrow> u | None \<Rightarrow> None)"
proof -
  show idx: "set (df_index t') = insert seed (set (df_index t))"
    by (simp add: t'_def combine_first_def Let_def set_union_labels df_index_DataFrame)
  show cols: "set (df_columns t') = set (map fst data) \<union> set (df_columns t)"
    by (simp add: t'_def combine_first_def Let_def set_union_columns df_columns_DataFrame)
  show "df_at t' r c = Some (combiner (df_at (DataFrame [seed] data) r c) (df_at t r c))"
    if "r \<in> set (df_index t')" and "c \<in> set (df_columns t')"
    using that idx cols
    by (simp add: t'_def df_at_combine_first df_index_DataFrame df_columns_DataFrame)
  show "df_at t' seed c = Some (case map_of data c of Some v \<Rightarrow> v | None \<Rightarrow> None)"
    if "c \<in> set (df_columns t')"
    using that cols fresh
    by (simp add: t'_def df_at_combine_first df_index_DataFrame df_columns_DataFrame
        df_at_DataFrame df_at_absent_row combiner_def split: option.splits)
  show "df_at t' r c = Some (case df_at t r c of Some u \<Rightarrow> u | None \<Rightarrow> None)"
    if "r \<in> set (df_index t)" and "c \<in> set (df_columns t')"
  proof -
    have "r \<noteq> seed" using that(1) fresh by auto
    then show ?thesis using that cols
      by (simp add: t'_def df_at_combine_first df_index_DataFrame df_columns_DataFrame
          df_at_DataFrame combiner_def split: option.splits)
  qed
qed

text \<open>
  Claim C2. For a well-formed existing table and a seed that has no row yet, the call
  succeeds and writes the merge: one row more, the columns of both, every cell the new
  frame's value where it has one and else the old table's; so the new row holds the
  values of \<open>data\<close> and NaN elsewhere, and an old row holds its old values and NaN in
  the new columns. \<open>save(f, 1, {"a": 1.0})\<close> then \<open>save(f, 2, {"b": 2.0})\<close> gives the
  rows 1 and 2 with \<open>a = 1.0, b = NaN\<close> and \<open>a = NaN, b = 2.0\<close>.
\<close>

theorem save_test_results_merge:
  fixes data :: "(string \<times> cell) list"
  shows
  "(fs f = Some (Csv t) \<and> frame_ok t \<and> seed \<notin> set (df_index t) \<and> distinct (map fst data) \<longrightarrow>
      (\<exists>t'. save_test_results f seed data fs = (None, fs(f \<mapsto> Csv t')) \<and> frame_ok t' \<and>
         set (df_index t') = insert seed (set (df_index t)) \<and>
         length (df_index t') = Suc (length (df_index t)) \<and>
         set (df_columns t') = set (map fst data) \<union> set (df_columns t) \<and>
         (\<forall>r c. r \<in> set (df_index t') \<and> c \<in> set (df_columns t') \<longrightarrow>
            df_at t' r c = Some (combiner (df_at (DataFrame [seed] data) r c) (df_at t r c))) \<and>
         (\<forall>c. c \<in> set (df_columns t') \<longrightarrow>
            df_at t' seed c = Some (case map_of data c of Some v \<Rightarrow> v | None \<Rightarrow> None)) \<and>
         (\<forall>r c. r \<in> set (df_index t) \<and> c \<in> set (df_columns t') \<longrightarrow>
            df_at t' r c = Some (case df_at t r c of Some u \<Rightarrow> u | None \<Rightarrow> None))))
   \<and> snd (saves ''f'' [(1, [(''a'', Some 1)]), (2, [(''b'', Some 2)])] Map.empty) ''f'' =
       Some (Csv \<lparr>df_index = [1, 2], df_columns = [''a'', ''b''],
                   df_values = [[Some 1, None], [None, Some 2]]\<rparr>)"
proof (intro conjI impI)
  assume a: "fs f = Some (Csv t) \<and> frame_ok t \<and> seed \<notin> set (df_index t) \<and> distinct (map fst data)"
  let ?t' = "combine_first (DataFrame [seed] data) t"
  have sv: "save_test_results f seed data fs = (None, fs(f \<mapsto> Csv ?t'))"
    using a save_existing by simp
  have ok': "frame_ok ?t'" using a frame_ok_save_frame by simp
  note cells = merge_cells[where t=t and seed=seed and data=data]
  have idx: "set (df_index ?t') = insert seed (set (df_index t))" using a cells(1) by simp
  have "card (set (df_index ?t')) = Suc (card (set (df_index t)))"
    using a idx by simp
  then have len: "length (df_index ?t') = Suc (length (df_index t))"
    using ok' a by (simp add: frame_ok_def distinct_card)
  show "\<exists>t'. save_test_results f seed data fs = (None, fs(f \<mapsto> Csv t')) \<and> frame_ok t' \<and>
         set (df_index t') = insert seed (set (df_index t)) \<and>
         length (df_index t') = Suc (length (df_index t)) \<and>
         set (df_columns t') = set (map fst data) \<union> set (df_columns t) \<and>
         (\<forall>r c. r \<in> set (df_index t') \<and> c \<in> set (df_columns t') \<longrightarrow>
            df_at t' r c = Some (combiner (df_at (DataFrame [seed] data) r c) (df_at t r c))) \<and>
         (\<forall>c. c \<in> set (df_columns t') \<longrightarrow>
            df_at t' seed c = Some (case map_of data c of Some v \<Rightarrow> v | None \<Rightarrow> None)) \<and>
         (\<forall>r c. r \<in> set (df_index t) \<and> c \<in> set (df_columns t') \<longrightarrow>
            df_at t' r c = Some (case df_at t r c of Some u \<Rightarrow> u | None \<Rightarrow> None))"
    using a sv ok' idx len cells(2-5) by (intro exI[of _ ?t']) simp
next
  show "snd (saves ''f'' [(1, [(''a'', Some 1)]), (2, [(''b'', Some 2)])] Map.empty) ''f'' =
       Some (Csv \<lparr>df_index = [1, 2], df_columns = [''a'', ''b''],
                   df_values = [[Some 1, None], [None, Some 2]]\<rparr>)"
    by (rule merge_example)
qed

theorem save_test_results_merge_witness:
  "frame_ok \<lparr>df_index = [1], df_columns = [''a''], df_values = [[Some 1]]\<rparr>
   \<and> (\<exists>t'. save_test_results ''f'' 2 [(''b'', Some 2)]
          (Map.empty(''f'' \<mapsto> Csv \<lparr>df_index = [1], df_columns = [''a''], df_values = [[Some 1]]\<rparr>)) =
           (None, (Map.empty(''f'' \<mapsto> Csv \<lparr>df_index = [1], df_columns = [''a''],
              df_values = [[Some 1]]\<rparr>))(''f'' \<mapsto> Csv t')) \<and>
         length (df_index t') = 2 \<and>
         df_at t' 1 ''a'' = Some (Some 1) \<and> df_at t' 1 ''b'' = Some None \<and>
         df_at t' 2 ''a'' = Some None \<and> df_at t' 2 ''b'' = Some (Some 2))"
proof -
  let ?T = "\<lparr>df_index = [1], df_columns = [''a''], df_values = [[Some (1::real)]]\<rparr>"
  let ?fs = "Map.empty(''f'' \<mapsto> Csv ?T)"
  have ok: "frame_ok ?T" by (simp add: frame_ok_def)
  have old: "df_at ?T 1 ''a'' = Some (Some 1)" "df_at ?T 1 ''b'' = None"
    by (simp_all add: df_at_def nth_opt_def)
  note inst = save_test_results_merge[where fs="?fs" and f="''f''" and t="?T" and seed=2
      and data="[(''b'', Some 2)]"]
  obtain t' where t': "save_test_results ''f'' 2 [(''b'', Some 2)] ?fs = (None, ?fs(''f'' \<mapsto> Csv t'))"
    "length (df_index t') = Suc (length (df_index ?T))"
    "set (df_columns t') = set (map fst [(''b'', Some (2::real))]) \<union> set (df_columns ?T)"
    "\<forall>c. c \<in> set (df_columns t') \<longrightarrow>
        df_at t' 2 c = Some (case map_of [(''b'', Some (2::real))] c of Some v \<Rightarrow> v | None \<Rightarrow> None)"
    "\<forall>r c. r \<in> set (df_index ?T) \<and> c \<in> set (df_columns t') \<longrightarrow>
        df_at t' r c = Some (case df_at ?T r c of Some u \<Rightarrow> u | None \<Rightarrow> None)"
    using inst ok by auto
  have "length (df_index t') = 2" using t'(2) by simp
  moreover have "df_at t' 1 ''a'' = Some (Some 1)" using t'(3,5) old by simp
  moreover have "df_at t' 1 ''b'' = Some None" using t'(3,5) old by simp
  moreover have "df_at t' 2 ''a'' = Some None" using t'(3,4) by simp
  moreover have "df_at t' 2 ''b'' = Some (Some 2)" using t'(3,4) by simp
  ultimately show ?thesis using ok t'(1) by blast
qed



section \<open>Properties of the lock wrapper\<close>

lemma acquire_succeeds:
  "lockf (i + k) = Some others \<Longrightarrow> (\<forall>j<k. lockf (i + j) = None) \<Longrightarrow>
   acquire p lockf i tr =
     Some (tr @ replicate k (Lockf p [LOCK_EX, LOCK_NB] False) @ [Lockf p [LOCK_EX, LOCK_NB] True],
           others)"
proof (induction k arbitrary: i tr)
  case 0
  then show ?case by (subst acquire.simps) simp
next
  case (Suc k)
  have no: "lockf i = None" using Suc.prems(2)[rule_format, of 0] by simp
  have a: "lockf (Suc i + k) = Some others" using Suc.prems(1) by simp
  have b: "\<forall>j<k. lockf (Suc i + j) = None"
  proof (intro allI impI)
    fix j assume "j < k"
    then have "Suc j < Suc k" by simp
    then have "lockf (i + Suc j) = None" using Suc.prems(2) by blast
    then show "lockf (Suc i + j) = None" by simp
  qed
  have "acquire p lockf i tr = acquire p lockf (Suc i) (tr @ [Lockf p [LOCK_EX, LOCK_NB] False])"
    using no by (subst acquire.simps) simp
  also have "\<dots> = Some ((tr @ [Lockf p [LOCK_EX, LOCK_NB] False]) @
      replicate k (Lockf p [LOCK_EX, LOCK_NB] False) @ [Lockf p [LOCK_EX, LOCK_NB] True], others)"
    by (rule Suc.IH[OF a b])
  finally show ?case by (simp add: replicate_app_Cons_same)
qed

lemma acquire_Some_granted:
  assumes "acquire p lockf i tr = Some r"
  shows "\<exists>k\<ge>i. lockf k \<noteq> None"
proof (rule acquire.raw_induct[where P = "\<lambda>p lockf i tr r. \<exists>k\<ge>i. lockf k \<noteq> None", OF _ assms])
  fix acq :: "string \<Rightarrow> (nat \<Rightarrow> (filesystem \<Rightarrow> filesystem) option) \<Rightarrow> nat \<Rightarrow> event list
     \<Rightarrow> (event list \<times> (filesystem \<Rightarrow> filesystem)) option"
  fix p lockf i tr r
  assume IH: "\<And>p lockf i tr r. acq p lockf i tr = Some r \<Longrightarrow> \<exists>k\<ge>i. lockf k \<noteq> None"
  assume step: "(case lockf i of
        Some others \<Rightarrow> Some (tr @ [Lockf p [LOCK_EX, LOCK_NB] True], others)
      | None \<Rightarrow> acq p lockf (Suc i) (tr @ [Lockf p [LOCK_EX, LOCK_NB] False])) = Some r"
  show "\<exists>k\<ge>i. lockf k \<noteq> None"
  proof (cases "lockf i")
    case (Some others)
    then have "i \<le> i \<and> lockf i \<noteq> None" by simp
    then show ?thesis by (rule exI)
  next
    case None
    then have "acq p lockf (Suc i) (tr @ [Lockf p [LOCK_EX, LOCK_NB] False]) = Some r"
      using step by simp
    then have "\<exists>k\<ge>Suc i. lockf k \<noteq> None" by (rule IH)
    then obtain k where "Suc i \<le> k" "lockf k \<noteq> None" by auto
    then have "i \<le> k \<and> lockf k \<noteq> None" by simp
    then show ?thesis by (rule exI)
  qed
qed

lemma acquire_spins:
  assumes "\<forall>k. lockf k = None"
  shows "acquire p lockf i tr = None"
proof (cases "acquire p lockf i tr")
  case None
  then show ?thesis .
next
  case (Some r)
  then have "\<exists>k\<ge>i. lockf k \<noteq> None" by (rule acquire_Some_granted)
  then show ?thesis using assms by simp
qed

lemma acquire_trace:
  assumes a: "acquire p lockf i tr = Some (tr', others)"
  shows "\<exists>k. lockf (i + k) = Some others \<and> (\<forall>j<k. lockf (i + j) = None) \<and>
           tr' = tr @ replicate k (Lockf p [LOCK_EX, LOCK_NB] False) @ [Lockf p [LOCK_EX, LOCK_NB] True]"
proof -
  obtain m where m: "m \<ge> i" "lockf m \<noteq> None" using acquire_Some_granted[OF a] by blast
  define k where "k = (LEAST k. lockf (i + k) \<noteq> None)"
  have "lockf (i + (m - i)) \<noteq> None" using m by simp
  then have lk: "lockf (i + k) \<noteq> None" unfolding k_def by (rule LeastI)
  then obtain u where u: "lockf (i + k) = Some u" by auto
  have before: "\<forall>j<k. lockf (i + j) = None"
  proof (intro allI impI)
    fix j assume "j < k"
    then have "\<not> lockf (i + j) \<noteq> None" unfolding k_def by (rule not_less_Least)
    then show "lockf (i + j) = None" by simp
  qed
  have "acquire p lockf i tr =
      Some (tr @ replicate k (Lockf p [LOCK_EX, LOCK_NB] False) @ [Lockf p [LOCK_EX, LOCK_NB] True], u)"
    by (rule acquire_succeeds[OF u before])
  then have "tr' = tr @ replicate k (Lockf p [LOCK_EX, LOCK_NB] False) @ [Lockf p [LOCK_EX, LOCK_NB] True]"
    and "others = u" using a by simp_all
  then show ?thesis using u before by blast
qed

lemma lock_and_run_method_shape:
  assumes "lock_and_run_method p func lockf fs = Some (trace, res)"
  shows "(\<exists>e. open_rplus fs p = Some e \<and> trace = [Open p False] \<and> res = (Some e, fs)) \<or>
         (open_rplus fs p = None \<and>
          (\<exists>n others. lockf n = Some others \<and> (\<forall>j<n. lockf j = None) \<and>
             trace = Open p True # replicate n (Lockf p [LOCK_EX, LOCK_NB] False) @
                       [Lockf p [LOCK_EX, LOCK_NB] True, Invoke] \<and>
             res = func (others fs)))"
proof (cases "open_rplus fs p")
  case (Some e)
  then show ?thesis using assms by (simp add: lock_and_run_method_def)
next
  case None
  then obtain tr others where tr: "acquire p lockf 0 [Open p True] = Some (tr, others)"
    and "trace = tr @ [Invoke]" and "res = func (others fs)"
    using assms by (auto simp: lock_and_run_method_def split: option.splits)
  moreover from acquire_trace[OF tr] obtain n where "lockf n = Some others"
    "\<forall>j<n. lockf j = None"
    "tr = [Open p True] @ replicate n (Lockf p [LOCK_EX, LOCK_NB] False) @ [Lockf p [LOCK_EX, LOCK_NB] True]"
    by auto
  ultimately show ?thesis using None by auto
qed

text \<open>
  Counterexample to C7 as stated ("every call ... acquires ... then executes the save
  exactly once"): with no lock file the call returns after the failed \<open>open\<close>, although
  the lock is free; it makes no lock attempt and does not run the save, and the result
  file is not created.
\<close>

theorem threadsafe_save_without_lock_file_skips_save:
  "threadsafe_save_test_results ''missing.lock'' ''test_results.csv'' 0
      [(''0.02_micro'', Some (1 / 2))] (\<lambda>k. Some id) Map.empty =
     Some ([Open ''missing.lock'' False], Some FileNotFoundError, Map.empty)"
  by (simp add: threadsafe_save_test_results_def threadsafe_fn_def lock_and_run_method_def
      open_rplus_def)

text \<open>
  Claim C7, amended. A call whose lock file can be opened, and whose \<open>k\<close>-th lock attempt
  is the first to succeed, opens the lock file, makes \<open>k\<close> failed and then one successful
  attempt to take the exclusive lock without blocking (\<open>LOCK_EX | LOCK_NB\<close>), and then
  runs the save exactly once, on the files as they are when the lock is taken. If no
  attempt ever succeeds the call never returns. Every call that returns has one of two
  traces: that one, with exactly one call of the save, right after the acquisition; or,
  when the lock file cannot be opened, the failed \<open>open\<close> alone, with the exception of
  the \<open>open\<close> and the files untouched. No trace holds an explicit release: no \<open>close\<close>,
  and no \<open>lockf\<close> but the attempts on the lock file with \<open>LOCK_EX | LOCK_NB\<close>.
\<close>

theorem threadsafe_save_locks_then_saves_once:
  "(open_rplus fs lock_filename = None \<and> lockf k = Some others \<and> (\<forall>j<k. lockf j = None) \<longrightarrow>
      threadsafe_save_test_results lock_filename filename seed data lockf fs =
        Some (Open lock_filename True #
                replicate k (Lockf lock_filename [LOCK_EX, LOCK_NB] False) @
                [Lockf lock_filename [LOCK_EX, LOCK_NB] True, Invoke],
              save_test_results filename seed data (others fs)))
   \<and> (open_rplus fs lock_filename = None \<and> (\<forall>k. lockf k = None) \<longrightarrow>
      threadsafe_save_test_results lock_filename filename seed data lockf fs = None)
   \<and> (\<forall>trace res. threadsafe_save_test_results lock_filename filename seed data lockf fs =
          Some (trace, res) \<longrightarrow>
        (\<forall>p. Close p \<notin> set trace) \<and>
        (\<forall>p flags ok. Lockf p flags ok \<in> set trace \<longrightarrow>
           p = lock_filename \<and> flags = [LOCK_EX, LOCK_NB] \<and> LOCK_UN \<notin> set flags) \<and>
        (open_rplus fs lock_filename = None \<longrightarrow>
           count_list trace Invoke = 1 \<and>
           (\<exists>n others. lockf n = Some others \<and> (\<forall>j<n. lockf j = None) \<and>
              trace = Open lock_filename True #
                replicate n (Lockf lock_filename [LOCK_EX, LOCK_NB] False) @
                [Lockf lock_filename [LOCK_EX, LOCK_NB] True, Invoke] \<and>
              res = save_test_results filename seed data (others fs))) \<and>
        (open_rplus fs lock_filename \<noteq> None \<longrightarrow>
           trace = [Open lock_filename False] \<and> res = (open_rplus fs lock_filename, fs)))"
proof (intro conjI impI allI)
  assume a: "open_rplus fs lock_filename = None \<and> lockf k = Some others \<and> (\<forall>j<k. lockf j = None)"
  then have "acquire lock_filename lockf 0 [Open lock_filename True] =
      Some ([Open lock_filename True] @ replicate k (Lockf lock_filename [LOCK_EX, LOCK_NB] False) @
            [Lockf lock_filename [LOCK_EX, LOCK_NB] True], others)"
    using acquire_succeeds[of lockf 0 k others] by simp
  then show "threadsafe_save_test_results lock_filename filename seed data lockf fs =
        Some (Open lock_filename True #
                replicate k (Lockf lock_filename [LOCK_EX, LOCK_NB] False) @
                [Lockf lock_filename [LOCK_EX, LOCK_NB] True, Invoke],
              save_test_results filename seed data (others fs))"
    using a by (simp add: threadsafe_save_test_results_def threadsafe_fn_def lock_and_run_method_def)
next
  assume "open_rplus fs lock_filename = None \<and> (\<forall>k. lockf k = None)"
  then show "threadsafe_save_test_results lock_filename filename seed data lockf fs = None"
    by (simp add: threadsafe_save_test_results_def threadsafe_fn_def lock_and_run_method_def
        acquire_spins)
next
  fix trace res
  assume r: "threadsafe_save_test_results lock_filename filename seed data lockf fs = Some (trace, res)"
  then have "lock_and_run_method lock_filename (save_test_results filename seed data) lockf fs =
      Some (trace, res)"
    by (simp add: threadsafe_save_test_results_def threadsafe_fn_def)
  note shape = lock_and_run_method_shape[OF this]
  {
    fix p
    show "Close p \<notin> set trace" using shape by auto
  }
  {
    fix p flags ok
    assume "Lockf p flags ok \<in> set trace"
    then have pf: "p = lock_filename \<and> flags = [LOCK_EX, LOCK_NB]" using shape by auto
    then show "p = lock_filename" and "flags = [LOCK_EX, LOCK_NB]" and "LOCK_UN \<notin> set flags"
      by simp_all
  }
  {
    assume op: "open_rplus fs lock_filename = None"
    then obtain n others where n: "lockf n = Some others" "\<forall>j<n. lockf j = None"
      "trace = Open lock_filename True #
                replicate n (Lockf lock_filename [LOCK_EX, LOCK_NB] False) @
                [Lockf lock_filename [LOCK_EX, LOCK_NB] True, Invoke]"
      "res = save_test_results filename seed data (others fs)"
      using shape by auto
    show "count_list trace Invoke = 1" using n(3) by (simp add: count_list_0_iff)
    show "\<exists>n others. lockf n = Some others \<and> (\<forall>j<n. lockf j = None) \<and>
              trace = Open lock_filename True #
                replicate n (Lockf lock_filename [LOCK_EX, LOCK_NB] False) @
                [Lockf lock_filename [LOCK_EX, LOCK_NB] True, Invoke] \<and>
              res = save_test_results filename seed data (others fs)"
      using n by blast
  }
  {
    assume "open_rplus fs lock_filename \<noteq> None"
    then show "trace = [Open lock_filename False]"
      and "res = (open_rplus fs lock_filename, fs)"
      using shape by auto
  }
qed

theorem threadsafe_save_locks_then_saves_once_witness:
  "open_rplus (Map.empty(''test_results.lock'' \<mapsto> Unparsable)) ''test_results.lock'' = None
   \<and> threadsafe_save_test_results ''test_results.lock'' ''test_results.csv'' 3 [(''a'', Some 1)]
         (\<lambda>n. if n < 2 then None else Some id)
         (Map.empty(''test_results.lock'' \<mapsto> Unparsable)) =
       Some ([Open ''test_results.lock'' True,
              Lockf ''test_results.lock'' [LOCK_EX, LOCK_NB] False,
              Lockf ''test_results.lock'' [LOCK_EX, LOCK_NB] False,
              Lockf ''test_results.lock'' [LOCK_EX, LOCK_NB] True, Invoke],
             None,
             Map.empty(''test_results.lock'' \<mapsto> Unparsable,
               ''test_results.csv'' \<mapsto>
                 Csv \<lparr>df_index = [3], df_columns = [''a''], df_values = [[Some 1]]\<rparr>))"
proof -
  let ?fs = "Map.empty(''test_results.lock'' \<mapsto> Unparsable) :: filesystem"
  let ?lockf = "\<lambda>n::nat. if n < 2 then None else Some (id :: filesystem \<Rightarrow> filesystem)"
  have op: "open_rplus ?fs ''test_results.lock'' = None" by (simp add: open_rplus_def)
  have first: "?lockf 2 = Some id \<and> (\<forall>j<2. ?lockf j = None)" by simp
  have sv: "save_test_results ''test_results.csv'' 3 [(''a'', Some 1)] (id ?fs) =
      (None, ?fs(''test_results.csv'' \<mapsto>
         Csv \<lparr>df_index = [3], df_columns = [''a''], df_values = [[Some 1]]\<rparr>))"
    by (simp add: save_test_results_def os_path_exists_def to_csv_def DataFrame_def)
  have two: "replicate 2 (Lockf ''test_results.lock'' [LOCK_EX, LOCK_NB] False) =
      [Lockf ''test_results.lock'' [LOCK_EX, LOCK_NB] False,
       Lockf ''test_results.lock'' [LOCK_EX, LOCK_NB] False]"
    by (simp add: numeral_2_eq_2)
  note inst = threadsafe_save_locks_then_saves_once[where fs="?fs"
        and lock_filename="''test_results.lock''" and lockf="?lockf" and k=2 and others=id
        and filename="''test_results.csv''" and seed=3 and data="[(''a'', Some 1)]"]
  have run: "threadsafe_save_test_results ''test_results.lock'' ''test_results.csv'' 3
        [(''a'', Some 1)] ?lockf ?fs =
      Some (Open ''test_results.lock'' True #
              replicate 2 (Lockf ''test_results.lock'' [LOCK_EX, LOCK_NB] False) @
              [Lockf ''test_results.lock'' [LOCK_EX, LOCK_NB] True, Invoke],
            save_test_results ''test_results.csv'' 3 [(''a'', Some 1)] (id ?fs))"
  proof (rule mp[OF conjunct1[OF inst]])
    show "open_rplus ?fs ''test_results.lock'' = None \<and> ?lockf 2 = Some id \<and>
        (\<forall>j<2. ?lockf j = None)"
      using op first by blast
  qed
  show ?thesis
    unfolding run two sv using op by simp
qed

text \<open>
  Claim C10. When the lock file does not exist the call raises \<open>FileNotFoundError\<close> at
  the \<open>open\<close>: the trace is the failed open alone (no lock attempt, no call of the save)
  and the file system, the result file included, is unchanged.
\<close>

theorem threadsafe_save_missing_lock_file:
  "fs lock_filename = None \<Longrightarrow>
   threadsafe_save_test_results lock_filename filename seed data lockf fs =
     Some ([Open lock_filename False], Some FileNotFoundError, fs)"
  by (simp add: threadsafe_save_test_results_def threadsafe_fn_def lock_and_run_method_def
      open_rplus_def)

theorem threadsafe_save_missing_lock_file_witness:
  "(Map.empty :: filesystem) ''test_results.lock'' = None
   \<and> threadsafe_save_test_results ''test_results.lock'' ''test_results.csv'' 3 [(''a'', Some 1)]
         (\<lambda>n. Some id) Map.empty =
       Some ([Open ''test_results.lock'' False], Some FileNotFoundError, Map.empty)"
  using threadsafe_save_missing_lock_file[of Map.empty "''test_results.lock''"
      "''test_results.csv''" 3 "[(''a'', Some 1)]" "\<lambda>n. Some id"]
  by simp

section \<open>Properties of the node classification evaluation\<close>

lemma split_calls_append: "split_calls (cs @ ds) = split_calls cs @ split_calls ds"
  by (induction cs rule: split_calls.induct) simp_all

lemma fit_calls_append: "fit_calls (cs @ ds) = fit_calls cs @ fit_calls ds"
  by (induction cs rule: fit_calls.induct) simp_all

lemma eval_step_Inr:
  assumes "eval_step lib sp X y seed i p st = Inr st'"
  shows "\<exists>mi ma fitted g x_train y_train x_test predictions y_test.
           scored lib sp X y seed p mi ma \<and>
           st' = \<lparr>f1_micros = set_entry (f1_micros st) seed i mi,
                  f1_macros = set_entry (f1_macros st) seed i ma,
                  model = fitted, np_random = g,
                  lib_calls = lib_calls st @
                    [CallSplit sp (1 - p) (Some (int seed)),
                     CallFit (model st) x_train y_train,
                     CallPredict fitted x_test,
                     CallF1 y_test predictions Micro,
                     CallF1 y_test predictions Macro]\<rparr>"
  using assms unfolding eval_step_def scored_def
  by (auto split: sum.splits prod.splits) blast

lemma dims_set_entry:
  assumes "dims n k a"
  shows "dims n k (set_entry a r c v)"
proof (cases "r < length a")
  case True
  then have "length (a ! r) = k" using assms by (simp add: dims_def list_all_length)
  then show ?thesis using assms True
    by (auto simp: dims_def set_entry_def list_all_length nth_list_update)
next
  case False
  then have "a[r := (a ! r)[c := v]] = a" by (simp add: list_update_beyond)
  then show ?thesis using assms by (simp add: set_entry_def)
qed

lemma set_entry_same: "dims n k a \<Longrightarrow> r < n \<Longrightarrow> c < k \<Longrightarrow> set_entry a r c v ! r ! c = v"
  by (simp add: dims_def set_entry_def list_all_length)

lemma set_entry_other_row: "r' \<noteq> r \<Longrightarrow> set_entry a r c v ! r' = a ! r'"
  by (simp add: set_entry_def)

lemma set_entry_other_column:
  assumes "c' \<noteq> c"
  shows "set_entry a r c v ! r ! c' = a ! r ! c'"
proof (cases "r < length a")
  case True
  then show ?thesis using assms by (simp add: set_entry_def)
next
  case False
  then have "a[r := (a ! r)[c := v]] = a" by (simp add: list_update_beyond)
  then show ?thesis by (simp add: set_entry_def)
qed

lemma dims_replicate: "dims n k (replicate n (replicate k 0))"
  by (simp add: dims_def list_all_length)

lemma percentages_loop_Inr:
  assumes "percentages_loop lib sp X y seed i0 ps st = Inr st'"
    and "dims n k (f1_micros st)" and "dims n k (f1_macros st)"
    and "seed < n" and "i0 + length ps \<le> k"
  shows "dims n k (f1_micros st') \<and> dims n k (f1_macros st') \<and>
    (\<forall>j<length ps. scored lib sp X y seed (ps ! j)
        (f1_micros st' ! seed ! (i0 + j)) (f1_macros st' ! seed ! (i0 + j))) \<and>
    (\<forall>r. r \<noteq> seed \<longrightarrow> f1_micros st' ! r = f1_micros st ! r \<and> f1_macros st' ! r = f1_macros st ! r) \<and>
    (\<forall>c<i0. f1_micros st' ! seed ! c = f1_micros st ! seed ! c \<and>
            f1_macros st' ! seed ! c = f1_macros st ! seed ! c) \<and>
    split_calls (lib_calls st') = split_calls (lib_calls st) @ map (\<lambda>p. (sp, 1 - p, Some (int seed))) ps \<and>
    length (lib_calls st') = length (lib_calls st) + 5 * length ps \<and>
    (\<exists>ms. fit_calls (lib_calls st') = fit_calls (lib_calls st) @ ms \<and> (ps \<noteq> [] \<longrightarrow> ms \<noteq> [] \<and> hd ms = model st))"
  using assms
proof (induction ps arbitrary: i0 st)
  case Nil
  then show ?case by simp
next
  case (Cons p ps)
  obtain st1 where step: "eval_step lib sp X y seed i0 p st = Inr st1"
    and rest: "percentages_loop lib sp X y seed (Suc i0) ps st1 = Inr st'"
    using Cons.prems(1) by (auto split: sum.splits)
  from eval_step_Inr[OF step] obtain mi ma fitted g x_train y_train x_test predictions y_test
    where sc: "scored lib sp X y seed p mi ma"
      and st1: "st1 = \<lparr>f1_micros = set_entry (f1_micros st) seed i0 mi,
                  f1_macros = set_entry (f1_macros st) seed i0 ma,
                  model = fitted, np_random = g,
                  lib_calls = lib_calls st @
                    [CallSplit sp (1 - p) (Some (int seed)),
                     CallFit (model st) x_train y_train,
                     CallPredict fitted x_test,
                     CallF1 y_test predictions Micro,
                     CallF1 y_test predictions Macro]\<rparr>"
    by blast
  have i0: "i0 < k" using Cons.prems(5) by simp
  have d1: "dims n k (f1_micros st1)" "dims n k (f1_macros st1)"
    using Cons.prems(2,3) st1 by (simp_all add: dims_set_entry)
  have le: "Suc i0 + length ps \<le> k" using Cons.prems(5) by simp
  note IH = Cons.IH[OF rest d1 Cons.prems(4) le]
  have here: "f1_micros st1 ! seed ! i0 = mi" "f1_macros st1 ! seed ! i0 = ma"
    using st1 Cons.prems(2,3,4) i0 by (simp_all add: set_entry_same)
  have kept: "f1_micros st' ! seed ! i0 = mi" "f1_macros st' ! seed ! i0 = ma"
    using IH here by simp_all
  have B: "\<forall>j<length (p # ps). scored lib sp X y seed ((p # ps) ! j)
        (f1_micros st' ! seed ! (i0 + j)) (f1_macros st' ! seed ! (i0 + j))"
  proof (intro allI impI)
    fix j assume j: "j < length (p # ps)"
    show "scored lib sp X y seed ((p # ps) ! j)
        (f1_micros st' ! seed ! (i0 + j)) (f1_macros st' ! seed ! (i0 + j))"
    proof (cases j)
      case 0
      then show ?thesis using sc kept by simp
    next
      case (Suc j')
      then have "j' < length ps" using j by simp
      then have "scored lib sp X y seed (ps ! j')
        (f1_micros st' ! seed ! (Suc i0 + j')) (f1_macros st' ! seed ! (Suc i0 + j'))"
        using IH by blast
      then show ?thesis using Suc by simp
    qed
  qed
  have C1: "\<forall>r. r \<noteq> seed \<longrightarrow> f1_micros st' ! r = f1_micros st ! r \<and> f1_macros st' ! r = f1_macros st ! r"
    using IH st1 by (simp add: set_entry_other_row)
  have C2: "\<forall>c<i0. f1_micros st' ! seed ! c = f1_micros st ! seed ! c \<and>
            f1_macros st' ! seed ! c = f1_macros st ! seed ! c"
  proof (intro allI impI)
    fix c assume c: "c < i0"
    then have "f1_micros st' ! seed ! c = f1_micros st1 ! seed ! c"
      "f1_macros st' ! seed ! c = f1_macros st1 ! seed ! c" using IH by simp_all
    moreover have "f1_micros st1 ! seed ! c = f1_micros st ! seed ! c"
      "f1_macros st1 ! seed ! c = f1_macros st ! seed ! c"
      using c st1 by (simp_all add: set_entry_other_column)
    ultimately show "f1_micros st' ! seed ! c = f1_micros st ! seed ! c \<and>
            f1_macros st' ! seed ! c = f1_macros st ! seed ! c" by simp
  qed
  have D: "split_calls (lib_calls st') =
      split_calls (lib_calls st) @ map (\<lambda>p. (sp, 1 - p, Some (int seed))) (p # ps)"
    using IH st1 by (simp add: split_calls_append)
  have E: "length (lib_calls st') = length (lib_calls st) + 5 * length (p # ps)"
    using IH st1 by simp
  obtain ms where ms: "fit_calls (lib_calls st') = fit_calls (lib_calls st1) @ ms" using IH by blast
  have "fit_calls (lib_calls st1) = fit_calls (lib_calls st) @ [model st]"
    using st1 by (simp add: fit_calls_append)
  then have F: "\<exists>ms. fit_calls (lib_calls st') = fit_calls (lib_calls st) @ ms \<and>
      (p # ps \<noteq> [] \<longrightarrow> ms \<noteq> [] \<and> hd ms = model st)"
    using ms by (intro exI[of _ "model st # ms"]) simp
  show ?case using IH B C1 C2 D E F by blast
qed

lemma repeats_loop_Inr:
  assumes "repeats_loop lib sp X y ps seeds st = Inr st'"
    and "dims n (length ps) (f1_micros st)" and "dims n (length ps) (f1_macros st)"
    and "distinct seeds" and "list_all (\<lambda>s. s < n) seeds"
  shows "dims n (length ps) (f1_micros st') \<and> dims n (length ps) (f1_macros st') \<and>
    (\<forall>s j. s \<in> set seeds \<and> j < length ps \<longrightarrow>
        scored lib sp X y s (ps ! j) (f1_micros st' ! s ! j) (f1_macros st' ! s ! j)) \<and>
    (\<forall>r. r \<notin> set seeds \<longrightarrow> f1_micros st' ! r = f1_micros st ! r \<and> f1_macros st' ! r = f1_macros st ! r) \<and>
    split_calls (lib_calls st') =
      split_calls (lib_calls st) @ concat (map (\<lambda>s. map (\<lambda>p. (sp, 1 - p, Some (int s))) ps) seeds) \<and>
    length (lib_calls st') = length (lib_calls st) + 5 * length seeds * length ps \<and>
    (\<exists>ms. fit_calls (lib_calls st') = fit_calls (lib_calls st) @ ms \<and>
          (seeds \<noteq> [] \<and> ps \<noteq> [] \<longrightarrow> ms \<noteq> [] \<and> hd ms = model st))"
  using assms
proof (induction seeds arbitrary: st)
  case Nil
  then show ?case by simp
next
  case (Cons seed seeds)
  obtain st1 where inner: "percentages_loop lib sp X y seed 0 ps st = Inr st1"
    and rest: "repeats_loop lib sp X y ps seeds st1 = Inr st'"
    using Cons.prems(1) by (auto split: sum.splits)
  have seed: "seed < n" and fresh: "seed \<notin> set seeds" and dist: "distinct seeds"
    and below: "list_all (\<lambda>s. s < n) seeds"
    using Cons.prems(4,5) by simp_all
  have le: "0 + length ps \<le> length ps" by simp
  note I = percentages_loop_Inr[OF inner Cons.prems(2,3) seed le]
  have d1: "dims n (length ps) (f1_micros st1)" "dims n (length ps) (f1_macros st1)"
    using I by simp_all
  note IH = Cons.IH[OF rest d1 dist below]
  have row: "f1_micros st' ! seed = f1_micros st1 ! seed" "f1_macros st' ! seed = f1_macros st1 ! seed"
    using IH fresh by simp_all
  have B: "\<forall>s j. s \<in> set (seed # seeds) \<and> j < length ps \<longrightarrow>
        scored lib sp X y s (ps ! j) (f1_micros st' ! s ! j) (f1_macros st' ! s ! j)"
  proof (intro allI impI)
    fix s j assume a: "s \<in> set (seed # seeds) \<and> j < length ps"
    show "scored lib sp X y s (ps ! j) (f1_micros st' ! s ! j) (f1_macros st' ! s ! j)"
    proof (cases "s = seed")
      case True
      have "scored lib sp X y seed (ps ! j) (f1_micros st1 ! seed ! (0 + j)) (f1_macros st1 ! seed ! (0 + j))"
        using I a by blast
      then show ?thesis using True row by simp
    next
      case False
      then have "s \<in> set seeds" using a by simp
      then show ?thesis using IH a by blast
    qed
  qed
  have C: "\<forall>r. r \<notin> set (seed # seeds) \<longrightarrow>
      f1_micros st' ! r = f1_micros st ! r \<and> f1_macros st' ! r = f1_macros st ! r"
    using IH I by simp
  have D: "split_calls (lib_calls st') =
      split_calls (lib_calls st) @ concat (map (\<lambda>s. map (\<lambda>p. (sp, 1 - p, Some (int s))) ps) (seed # seeds))"
    using IH I by simp
  have E: "length (lib_calls st') = length (lib_calls st) + 5 * length (seed # seeds) * length ps"
    using IH I by (simp add: algebra_simps)
  obtain ms1 where ms1: "fit_calls (lib_calls st1) = fit_calls (lib_calls st) @ ms1"
    "ps \<noteq> [] \<longrightarrow> ms1 \<noteq> [] \<and> hd ms1 = model st" using I by blast
  obtain ms2 where ms2: "fit_calls (lib_calls st') = fit_calls (lib_calls st1) @ ms2" using IH by blast
  have F: "\<exists>ms. fit_calls (lib_calls st') = fit_calls (lib_calls st) @ ms \<and>
          (seed # seeds \<noteq> [] \<and> ps \<noteq> [] \<longrightarrow> ms \<noteq> [] \<and> hd ms = model st)"
    using ms1 ms2 by (intro exI[of _ "ms1 @ ms2"]) auto
  show ?case using IH B C D E F by blast
qed

lemma evaluate_loops_Inr:
  assumes "evaluate_loops lib sp m0 X y ps n g = Inr st"
  shows "0 \<le> n \<and> dims (nat n) (length ps) (f1_micros st) \<and> dims (nat n) (length ps) (f1_macros st) \<and>
    (\<forall>seed i. seed < nat n \<and> i < length ps \<longrightarrow>
        scored lib sp X y seed (ps ! i) (f1_micros st ! seed ! i) (f1_macros st ! seed ! i)) \<and>
    split_calls (lib_calls st) =
      concat (map (\<lambda>seed. map (\<lambda>p. (sp, 1 - p, Some (int seed))) ps) [0..<nat n]) \<and>
    length (lib_calls st) = 5 * nat n * length ps \<and>
    (fit_calls (lib_calls st) \<noteq> [] \<longrightarrow> hd (fit_calls (lib_calls st)) = m0)"
proof -
  let ?st0 = "\<lparr>f1_micros = replicate (nat n) (replicate (length ps) 0),
              f1_macros = replicate (nat n) (replicate (length ps) 0),
              model = m0, np_random = g, lib_calls = []\<rparr>"
  have n: "0 \<le> n" using assms by (auto simp: evaluate_loops_def split: if_splits)
  then have run: "repeats_loop lib sp X y ps [0..<nat n] ?st0 = Inr st"
    using assms by (simp add: evaluate_loops_def)
  have d: "dims (nat n) (length ps) (f1_micros ?st0)" "dims (nat n) (length ps) (f1_macros ?st0)"
    by (simp_all add: dims_replicate)
  have below: "list_all (\<lambda>s. s < nat n) [0..<nat n]" by (simp add: list_all_iff)
  note R = repeats_loop_Inr[OF run d distinct_upt below]
  obtain ms where ms: "fit_calls (lib_calls st) = ms"
    "[0..<nat n] \<noteq> [] \<and> ps \<noteq> [] \<longrightarrow> ms \<noteq> [] \<and> hd ms = m0"
    using R by auto
  have len: "length (lib_calls st) = 5 * nat n * length ps" using R by simp
  have first: "fit_calls (lib_calls st) \<noteq> [] \<longrightarrow> hd (fit_calls (lib_calls st)) = m0"
  proof
    assume ne: "fit_calls (lib_calls st) \<noteq> []"
    then have "lib_calls st \<noteq> []" by auto
    then have "nat n \<noteq> 0 \<and> ps \<noteq> []" using len by (cases "nat n = 0") auto
    then show "hd (fit_calls (lib_calls st)) = m0" using ms by simp
  qed
  show ?thesis using n R len first by simp
qed

lemma upt_2: "[0..<2] = [0, Suc 0]"
  by (simp add: numeral_2_eq_2)

lemma replicate_2: "replicate 2 x = [x, x]"
  by (simp add: numeral_2_eq_2)

lemma upt_3: "[0..<3] = [0, Suc 0, 2]"
  by (simp add: numeral_3_eq_3 numeral_2_eq_2)

lemmas evaluate_eval =
  run_repeats_def evaluate_loops_def choose_split_def choose_model_def eval_step_def
  example_sklearn_def example_split_def take_rows_def set_entry_def upt_2 upt_3 replicate_2
  Let_def


lemma eval_step_same_outcome:
  assumes "seeded_split_ignores_global lib" and "same_but_rng s t"
  shows "same_outcome (eval_step lib sp X y seed i p s) (eval_step lib sp X y seed i p t)"
proof -
  have eq: "fst (sk_split lib sp (1 - p) (Some (int seed)) X y (np_random s)) =
      fst (sk_split lib sp (1 - p) (Some (int seed)) X y (np_random t))"
    using assms(1) unfolding seeded_split_ignores_global_def by blast
  obtain r g where a: "sk_split lib sp (1 - p) (Some (int seed)) X y (np_random s) = (r, g)"
    by (cases "sk_split lib sp (1 - p) (Some (int seed)) X y (np_random s)")
  obtain r' g' where b: "sk_split lib sp (1 - p) (Some (int seed)) X y (np_random t) = (r', g')"
    by (cases "sk_split lib sp (1 - p) (Some (int seed)) X y (np_random t)")
  have r: "r' = r" using eq a b by simp
  show ?thesis
    using assms(2) unfolding eval_step_def a b r same_outcome_def same_but_rng_def
    by (simp split: sum.splits prod.splits)
qed

lemma percentages_loop_same_outcome:
  assumes "seeded_split_ignores_global lib" and "same_but_rng s t"
  shows "same_outcome (percentages_loop lib sp X y seed i ps s)
           (percentages_loop lib sp X y seed i ps t)"
  using assms(2)
proof (induction ps arbitrary: i s t)
  case Nil
  then show ?case by (simp add: same_outcome_def)
next
  case (Cons p ps)
  note step = eval_step_same_outcome[OF assms(1) Cons.prems, of sp X y seed i p]
  show ?case
  proof (cases "eval_step lib sp X y seed i p s")
    case (Inl e)
    then show ?thesis using step by (simp add: same_outcome_def)
  next
    case (Inr s1)
    then obtain t1 where t1: "eval_step lib sp X y seed i p t = Inr t1" "same_but_rng s1 t1"
      using step by (auto simp: same_outcome_def split: sum.splits)
    then show ?thesis using Inr Cons.IH[OF t1(2)] by simp
  qed
qed

lemma repeats_loop_same_outcome:
  assumes "seeded_split_ignores_global lib" and "same_but_rng s t"
  shows "same_outcome (repeats_loop lib sp X y ps seeds s) (repeats_loop lib sp X y ps seeds t)"
  using assms(2)
proof (induction seeds arbitrary: s t)
  case Nil
  then show ?case by (simp add: same_outcome_def)
next
  case (Cons seed seeds)
  note inner = percentages_loop_same_outcome[OF assms(1) Cons.prems, of sp X y seed 0 ps]
  show ?case
  proof (cases "percentages_loop lib sp X y seed 0 ps s")
    case (Inl e)
    then show ?thesis using inner by (simp add: same_outcome_def)
  next
    case (Inr s1)
    then obtain t1 where t1: "percentages_loop lib sp X y seed 0 ps t = Inr t1" "same_but_rng s1 t1"
      using inner by (auto simp: same_outcome_def split: sum.splits)
    then show ?thesis using Inr Cons.IH[OF t1(2)] by simp
  qed
qed

lemma run_repeats_same_outcome:
  assumes "seeded_split_ignores_global lib"
  shows "same_outcome (run_repeats lib X y ps n g1) (run_repeats lib X y ps n g2)"
proof (cases "n < 0")
  case True
  then show ?thesis by (simp add: run_repeats_def evaluate_loops_def same_outcome_def)
next
  case False
  then show ?thesis
    unfolding run_repeats_def evaluate_loops_def
    using repeats_loop_same_outcome[OF assms, where seeds="[0..<nat n]"]
    by (simp add: same_but_rng_def)
qed

lemma mean_axis0_length: "length (mean_axis0 k a) = k"
  by (simp add: mean_axis0_def)

lemma mean_axis0_nth:
  assumes "dims n k a" and "0 < n" and "j < k"
  shows "mean_axis0 k a ! j = Some ((\<Sum>seed<n. a ! seed ! j) / real n)"
proof -
  have len: "length a = n" using assms(1) by (simp add: dims_def)
  then have ne: "a \<noteq> []" using assms(2) by auto
  have "sum_list (map (\<lambda>row. row ! j) a) = (\<Sum>seed = 0..<length a. a ! seed ! j)"
    by (simp add: sum_list_sum_nth)
  then have "sum_list (map (\<lambda>row. row ! j) a) = (\<Sum>seed<n. a ! seed ! j)"
    using len by (simp add: atLeast0LessThan)
  then show ?thesis using ne len assms(3) by (simp add: mean_axis0_def)
qed

lemma mean_axis0_no_row: "mean_axis0 k [] = replicate k None"
  by (simp add: mean_axis0_def map_replicate_const)

lemma mean_in_unit_interval:
  fixes f :: "nat \<Rightarrow> real"
  assumes "0 < n" and "\<forall>s<n. 0 \<le> f s \<and> f s \<le> 1"
  shows "0 \<le> (\<Sum>s<n. f s) / real n \<and> (\<Sum>s<n. f s) / real n \<le> 1"
proof -
  have lo: "0 \<le> (\<Sum>s<n. f s)" using assms(2) by (intro sum_nonneg) simp
  have "(\<Sum>s<n. f s) \<le> (\<Sum>s<n. 1)" using assms(2) by (intro sum_mono) simp
  then have hi: "(\<Sum>s<n. f s) \<le> real n" by simp
  show ?thesis using lo hi assms(1) by (simp add: divide_le_eq)
qed

lemma scored_in_unit_interval:
  assumes "f1_scores_in_unit_interval lib"
    and "scored lib sp X y seed p mi ma"
  shows "0 \<le> mi \<and> mi \<le> 1 \<and> 0 \<le> ma \<and> ma \<le> 1"
  using assms unfolding scored_def f1_scores_in_unit_interval_def by blast






text \<open>
  Counterexample to C5 as stated ("every repeat count n ... every returned F1 value lies
  in [0,1]"): with \<open>n_repeats = 0\<close> no library call is made, so all of them succeed, and
  the two arrays returned are the means of matrices without rows: NaN in every position.
\<close>

theorem evaluate_zero_repeats_returns_nan:
  "evaluate_node_classification example_sklearn [[0], [1], [2]] (Labels1 [7, 7, 8])
      [1 / 20, 1 / 10] 0 0 =
     Inr ([1 / 20, 1 / 10], [None, None], [None, None])"
  by (simp add: evaluate_node_classification_def run_repeats_def evaluate_loops_def
      mean_axis0_def upt_2)

text \<open>
  Claim C5, amended. When every F1 score the library returns lies in [0,1], the repeat
  count is at least 1 and the call returns, it returns the percentage list unchanged and
  two arrays with one entry per percentage, each entry the mean over the \<open>n\<close> repeats of
  the scores in that column of the matrix, and each in [0,1]. With a repeat count of 0 the
  call returns the percentages and two arrays of NaN.
\<close>

theorem evaluate_returns_column_means:
  "(f1_scores_in_unit_interval lib \<and>
     0 < n \<and> evaluate_node_classification lib X y ps n g = Inr (ps', micro, macro) \<longrightarrow>
       ps' = ps \<and> length micro = length ps \<and> length macro = length ps \<and>
       (\<exists>st. run_repeats lib X y ps n g = Inr st \<and>
          (\<forall>j. j < length ps \<longrightarrow>
             micro ! j = Some ((\<Sum>seed<nat n. f1_micros st ! seed ! j) / real (nat n)) \<and>
             macro ! j = Some ((\<Sum>seed<nat n. f1_macros st ! seed ! j) / real (nat n)))) \<and>
       (\<forall>j. j < length ps \<longrightarrow>
          (\<exists>u v. micro ! j = Some u \<and> 0 \<le> u \<and> u \<le> 1 \<and> macro ! j = Some v \<and> 0 \<le> v \<and> v \<le> 1)))
   \<and> evaluate_node_classification lib X y ps 0 g =
       Inr (ps, replicate (length ps) None, replicate (length ps) None)"
proof (intro conjI impI)
  assume a: "f1_scores_in_unit_interval lib \<and>
     0 < n \<and> evaluate_node_classification lib X y ps n g = Inr (ps', micro, macro)"
  then have range: "f1_scores_in_unit_interval lib"
    and n: "0 < nat n" by simp_all
  obtain st where run: "run_repeats lib X y ps n g = Inr st"
    and ps': "ps' = ps"
    and mi: "micro = mean_axis0 (length ps) (f1_micros st)"
    and ma: "macro = mean_axis0 (length ps) (f1_macros st)"
    using a by (auto simp: evaluate_node_classification_def split: sum.splits)
  have "evaluate_loops lib (choose_split y) (choose_model lib y) X y ps n g = Inr st"
    using run by (simp add: run_repeats_def)
  note R = evaluate_loops_Inr[OF this]
  have dmi: "dims (nat n) (length ps) (f1_micros st)"
    and dma: "dims (nat n) (length ps) (f1_macros st)" using R by simp_all
  have means: "\<forall>j. j < length ps \<longrightarrow>
             micro ! j = Some ((\<Sum>seed<nat n. f1_micros st ! seed ! j) / real (nat n)) \<and>
             macro ! j = Some ((\<Sum>seed<nat n. f1_macros st ! seed ! j) / real (nat n))"
    using mi ma mean_axis0_nth[OF dmi n] mean_axis0_nth[OF dma n] by simp
  have unit: "\<forall>j. j < length ps \<longrightarrow>
          (\<exists>u v. micro ! j = Some u \<and> 0 \<le> u \<and> u \<le> 1 \<and> macro ! j = Some v \<and> 0 \<le> v \<and> v \<le> 1)"
  proof (intro allI impI)
    fix j assume j: "j < length ps"
    have each: "\<forall>s<nat n. 0 \<le> f1_micros st ! s ! j \<and> f1_micros st ! s ! j \<le> 1 \<and>
        0 \<le> f1_macros st ! s ! j \<and> f1_macros st ! s ! j \<le> 1"
    proof (intro allI impI)
      fix s assume "s < nat n"
      then have "scored lib (choose_split y) X y s (ps ! j)
          (f1_micros st ! s ! j) (f1_macros st ! s ! j)" using R j by blast
      then show "0 \<le> f1_micros st ! s ! j \<and> f1_micros st ! s ! j \<le> 1 \<and>
        0 \<le> f1_macros st ! s ! j \<and> f1_macros st ! s ! j \<le> 1"
        by (rule scored_in_unit_interval[OF range])
    qed
    have "0 \<le> (\<Sum>s<nat n. f1_micros st ! s ! j) / real (nat n) \<and>
        (\<Sum>s<nat n. f1_micros st ! s ! j) / real (nat n) \<le> 1"
      by (rule mean_in_unit_interval[OF n]) (use each in blast)
    moreover have "0 \<le> (\<Sum>s<nat n. f1_macros st ! s ! j) / real (nat n) \<and>
        (\<Sum>s<nat n. f1_macros st ! s ! j) / real (nat n) \<le> 1"
      by (rule mean_in_unit_interval[OF n]) (use each in blast)
    ultimately show "\<exists>u v. micro ! j = Some u \<and> 0 \<le> u \<and> u \<le> 1 \<and>
        macro ! j = Some v \<and> 0 \<le> v \<and> v \<le> 1"
      using means j by blast
  qed
  show "ps' = ps" by (rule ps')
  show "length micro = length ps" using mi by (simp add: mean_axis0_length)
  show "length macro = length ps" using ma by (simp add: mean_axis0_length)
  show "\<exists>st. run_repeats lib X y ps n g = Inr st \<and>
          (\<forall>j. j < length ps \<longrightarrow>
             micro ! j = Some ((\<Sum>seed<nat n. f1_micros st ! seed ! j) / real (nat n)) \<and>
             macro ! j = Some ((\<Sum>seed<nat n. f1_macros st ! seed ! j) / real (nat n)))"
    using run means by blast
  show "\<forall>j. j < length ps \<longrightarrow>
          (\<exists>u v. micro ! j = Some u \<and> 0 \<le> u \<and> u \<le> 1 \<and> macro ! j = Some v \<and> 0 \<le> v \<and> v \<le> 1)"
    by (rule unit)
next
  show "evaluate_node_classification lib X y ps 0 g =
       Inr (ps, replicate (length ps) None, replicate (length ps) None)"
    by (simp add: evaluate_node_classification_def run_repeats_def evaluate_loops_def
        mean_axis0_no_row)
qed

lemma example_f1_score_range:
  "example_f1_score y_true y_pred average = Inr v \<Longrightarrow> 0 \<le> v \<and> v \<le> 1"
proof (induction y_true y_pred average rule: example_f1_score.induct)
  case (1 ys zs average)
  have "length (filter (\<lambda>(a, b). a = b) (zip ys zs)) \<le> length ys"
    by (rule order_trans[OF length_filter_le]) simp
  then have "real (length (filter (\<lambda>(a, b). a = b) (zip ys zs))) \<le> real (length ys)" by simp
  then show ?case using 1 by (auto simp: divide_le_eq)
next
  case (2 ys zs average)
  have "length (filter (\<lambda>(a, b). a = b) (zip ys zs)) \<le> length ys"
    by (rule order_trans[OF length_filter_le]) simp
  then have "real (length (filter (\<lambda>(a, b). a = b) (zip ys zs))) \<le> real (length ys)" by simp
  then show ?case using 2 by (auto simp: divide_le_eq)
qed simp_all

lemma example_scores_in_unit_interval: "f1_scores_in_unit_interval example_sklearn"
  unfolding f1_scores_in_unit_interval_def
  by (auto simp: example_sklearn_def dest: example_f1_score_range)

lemma example_evaluate:
  "evaluate_node_classification example_sklearn [[0], [1], [2]] (Labels1 [7, 7, 8]) [1 / 3] 2 g =
     Inr ([1 / 3], [Some (1 / 2)], [Some (1 / 2)])"
  by (simp add: evaluate_node_classification_def mean_axis0_def evaluate_eval)

theorem evaluate_returns_column_means_witness:
  "f1_scores_in_unit_interval example_sklearn
   \<and> (0::int) < 2
   \<and> evaluate_node_classification example_sklearn [[0], [1], [2]] (Labels1 [7, 7, 8]) [1 / 3] 2 0 =
       Inr ([1 / 3], [Some (1 / 2)], [Some (1 / 2)])
   \<and> length [Some (1 / 2 :: real)] = length [1 / 3 :: real]
   \<and> (\<exists>u v. [Some (1 / 2)] ! 0 = Some u \<and> (0::real) \<le> u \<and> u \<le> 1 \<and>
             [Some (1 / 2)] ! 0 = Some v \<and> (0::real) \<le> v \<and> v \<le> 1)"
proof -
  have ev: "evaluate_node_classification example_sklearn [[0], [1], [2]] (Labels1 [7, 7, 8])
      [1 / 3] 2 0 = Inr ([1 / 3], [Some (1 / 2)], [Some (1 / 2)])"
    by (rule example_evaluate)
  have hyp: "f1_scores_in_unit_interval example_sklearn \<and> (0::int) < 2 \<and>
      evaluate_node_classification example_sklearn [[0], [1], [2]] (Labels1 [7, 7, 8])
        [1 / 3] 2 0 = Inr ([1 / 3], [Some (1 / 2)], [Some (1 / 2)])"
    using example_scores_in_unit_interval ev by simp
  note inst = evaluate_returns_column_means[where lib=example_sklearn and X="[[0], [1], [2]]"
      and y="Labels1 [7, 7, 8]" and ps="[1 / 3]" and n=2 and g=0 and ps'="[1 / 3]"
      and micro="[Some (1 / 2)]" and macro="[Some (1 / 2)]", THEN conjunct1, THEN mp, OF hyp]
  have len: "length [Some (1 / 2 :: real)] = length [1 / 3 :: real]" using inst by blast
  have "\<forall>j. j < length [1 / 3 :: real] \<longrightarrow>
      (\<exists>u v. [Some (1 / 2)] ! j = Some u \<and> (0::real) \<le> u \<and> u \<le> 1 \<and>
             [Some (1 / 2)] ! j = Some v \<and> (0::real) \<le> v \<and> v \<le> 1)"
    using inst by blast
  then have unit: "\<exists>u v. [Some (1 / 2)] ! 0 = Some u \<and> (0::real) \<le> u \<and> u \<le> 1 \<and>
             [Some (1 / 2)] ! 0 = Some v \<and> (0::real) \<le> v \<and> v \<le> 1"
    by simp
  show ?thesis using hyp len unit by blast
qed

text \<open>
  Claim C6. The library's fit, predict and score are functions of their arguments, and
  a split with an explicit seed does not read the global random generator. The code
  passes the repeat index as the seed of every split, so the result of the call does
  not depend on the state of the global generator: two calls with the same embedding,
  labels, percentages and repeat count return the same value (the same exception, or
  the same percentages and arrays), whatever the generator's state at each call.
\<close>

theorem evaluate_is_deterministic:
  "seeded_split_ignores_global lib \<longrightarrow>
     evaluate_node_classification lib X y ps n g1 = evaluate_node_classification lib X y ps n g2"
proof
  assume "seeded_split_ignores_global lib"
  then have so: "same_outcome (run_repeats lib X y ps n g1) (run_repeats lib X y ps n g2)"
    by (rule run_repeats_same_outcome)
  show "evaluate_node_classification lib X y ps n g1 = evaluate_node_classification lib X y ps n g2"
  proof (cases "run_repeats lib X y ps n g1")
    case (Inl e)
    then have "run_repeats lib X y ps n g2 = Inl e" using so by (simp add: same_outcome_def)
    then show ?thesis using Inl by (simp add: evaluate_node_classification_def)
  next
    case (Inr s)
    then obtain t where "run_repeats lib X y ps n g2 = Inr t" "same_but_rng s t"
      using so by (auto simp: same_outcome_def split: sum.splits)
    then show ?thesis using Inr
      by (simp add: evaluate_node_classification_def same_but_rng_def)
  qed
qed

lemma example_seeded_split: "seeded_split_ignores_global example_sklearn"
  by (simp add: seeded_split_ignores_global_def example_sklearn_def example_split_def Let_def)

theorem evaluate_is_deterministic_witness:
  "seeded_split_ignores_global example_sklearn
   \<and> evaluate_node_classification example_sklearn [[0], [1], [2]] (Labels1 [7, 7, 8]) [1 / 3] 2 0 =
     evaluate_node_classification example_sklearn [[0], [1], [2]] (Labels1 [7, 7, 8]) [1 / 3] 2 5
   \<and> evaluate_node_classification example_sklearn [[0], [1], [2]] (Labels1 [7, 7, 8]) [1 / 3] 2 5 =
       Inr ([1 / 3], [Some (1 / 2)], [Some (1 / 2)])
   \<and> fst (sk_split example_sklearn StratifiedShuffleSplit (2 / 3) None [[0], [1], [2]]
            (Labels1 [7, 7, 8]) 0) \<noteq>
     fst (sk_split example_sklearn StratifiedShuffleSplit (2 / 3) None [[0], [1], [2]]
            (Labels1 [7, 7, 8]) 1)"
proof -
  note inst = evaluate_is_deterministic[where lib=example_sklearn and X="[[0], [1], [2]]"
      and y="Labels1 [7, 7, 8]" and ps="[1 / 3]" and n=2 and ?g1.0=0 and ?g2.0=5,
      THEN mp, OF example_seeded_split]
  have unseeded: "fst (sk_split example_sklearn StratifiedShuffleSplit (2 / 3) None [[0], [1], [2]]
            (Labels1 [7, 7, 8]) 0) \<noteq>
     fst (sk_split example_sklearn StratifiedShuffleSplit (2 / 3) None [[0], [1], [2]]
            (Labels1 [7, 7, 8]) 1)"
    by (simp add: example_sklearn_def example_split_def upt_3)
  show ?thesis using inst example_seeded_split example_evaluate[of 5] unseeded by simp
qed


section \<open>Properties of the hyperbolic softmax loss\<close>

subsection \<open>The Minkowski form and the distances\<close>















subsection \<open>The logits and the cross-entropy\<close>















end
